theory Spec2Isabelle
  imports Main "HOL-Library.Word"
begin

section \<open>The pod specification of hyper: data model (pod/pod.go)\<close>

text \<open>
  Go structs become records with the fields in declaration order. A field name that
  several structs share (Name, Path, Volumes, Files) carries a short prefix for every
  struct but UserPod. Go strings are byte strings (\<open>string\<close>), Go \<open>int\<close> is \<open>int\<close>
  (the code only compares it with 0), a slice is a list.
\<close>

type_synonym byte = "8 word"

record UserContainerPort =
  HostPort :: int
  ContainerPort :: int
  ServicePort :: int
  Protocol :: string

record UserEnvironmentVar =
  Env :: string
  Value :: string

record UserVolumeReference =
  vr_Path :: string
  Volume :: string
  ReadOnly :: bool

record UserFileReference =
  fr_Path :: string
  Filename :: string
  Perm :: string
  User :: string
  Group :: string

record UserContainer =
  c_Name :: string
  Image :: string
  Command :: "string list"
  Workdir :: string
  Entrypoint :: "string list"
  Ports :: "UserContainerPort list"
  Envs :: "UserEnvironmentVar list"
  c_Volumes :: "UserVolumeReference list"
  c_Files :: "UserFileReference list"
  RestartPolicy :: string

record UserResource =
  Vcpu :: int
  Memory :: int

record UserFile =
  f_Name :: string
  Encoding :: string
  Uri :: string
  Contents :: string

record UserVolume =
  v_Name :: string
  Source :: string
  Driver :: string

record UserPod =
  Name :: string
  Containers :: "UserContainer list"
  Resource :: UserResource
  Files :: "UserFile list"
  Volumes :: "UserVolume list"
  Tty :: bool
  Type :: string

subsection \<open>Errors and panics\<close>

text \<open>
  A Go \<open>error\<close> is modelled by its message. A function that returns \<open>(x, error)\<close>
  returns \<open>error + 'a\<close>; one that returns only \<open>error\<close> returns \<open>error option\<close>
  (\<open>None\<close> is \<open>nil\<close>). Run-time panics are values of their own type.
\<close>

type_synonym error = string

datatype panic =
  DivideByZero | IndexOutOfRange | NegativeLen | NilDereference | InterfaceConversion

subsection \<open>fmt.Errorf, as far as the source uses it\<close>

text \<open>
  The operands the source passes are integers (\<open>%d\<close>) and strings (\<open>%s\<close>). The
  package fmt writes \<open>%!verb(MISSING)\<close> for a verb that has no operand left,
  \<open>%!verb(type=value)\<close> for an operand of the wrong type and \<open>%!(EXTRA type=value, ...)\<close>
  for operands left over. Verbs other than \<open>d\<close> and \<open>s\<close> do not occur in the source;
  they are rendered like a wrong operand.
\<close>

datatype arg = ArgInt int | ArgStr string

fun digits :: "nat \<Rightarrow> string" where
  "digits n = (if n < 10 then [''0123456789'' ! n]
               else digits (n div 10) @ [''0123456789'' ! (n mod 10)])"

declare digits.simps [simp del]

definition Itoa :: "int \<Rightarrow> string" where
  "Itoa i = (if i < 0 then CHR ''-'' # digits (nat (- i)) else digits (nat i))"

fun typed :: "arg \<Rightarrow> string" where
  "typed (ArgInt i) = ''int='' @ Itoa i"
| "typed (ArgStr s) = ''string='' @ s"

fun verb :: "char \<Rightarrow> arg \<Rightarrow> string" where
  "verb v (ArgInt i) = (if v = CHR ''d'' then Itoa i else ''%!'' @ [v] @ ''('' @ typed (ArgInt i) @ '')'')"
| "verb v (ArgStr s) = (if v = CHR ''s'' then s else ''%!'' @ [v] @ ''('' @ typed (ArgStr s) @ '')'')"

fun extra :: "arg list \<Rightarrow> string" where
  "extra [] = []"
| "extra [a] = typed a"
| "extra (a # b # as) = typed a @ '', '' @ extra (b # as)"

fun Errorf :: "string \<Rightarrow> arg list \<Rightarrow> error" where
  "Errorf [] [] = []"
| "Errorf [] (a # as) = ''%!(EXTRA '' @ extra (a # as) @ '')''"
| "Errorf [c] args = (if c = CHR ''%'' then ''%!(NOVERB)'' @ Errorf [] args else c # Errorf [] args)"
| "Errorf (c # v # rest) args =
     (if c \<noteq> CHR ''%'' then c # Errorf (v # rest) args
      else if v = CHR ''%'' then CHR ''%'' # Errorf rest args
      else case args of
             [] \<Rightarrow> ''%!'' @ [v] @ ''(MISSING)'' @ Errorf rest []
           | a # as \<Rightarrow> verb v a @ Errorf rest as)"

declare Errorf.simps [simp del]

definition errors_New :: "string \<Rightarrow> error" where
  "errors_New text = text"

section \<open>The uniqueness checker: InterfaceSlice and keySet\<close>

text \<open>
  \<open>keySet\<close> takes an \<open>interface{}\<close> and inspects it at run time. The dynamic values
  are modelled by two datatypes. An element is a value of one of the four struct types
  with a \<open>key()\<close> method, a pointer to such a struct (\<open>None\<close> is the nil pointer), or
  a value of some other type (the nil interface value included). The four methods have
  value receivers, so the pointer types implement the interface \<open>item\<close> too, and calling
  \<open>key()\<close> through a nil pointer panics. An argument is a slice of elements or not a
  slice. A slice whose element type is an interface can hold elements of several types.
\<close>

datatype elem =
    EVolume UserVolume
  | EVolumeReference UserVolumeReference
  | EFile UserFile
  | EEnv UserEnvironmentVar
  | PVolume "UserVolume option"
  | PVolumeReference "UserVolumeReference option"
  | PFile "UserFile option"
  | PEnv "UserEnvironmentVar option"
  | EOther

datatype iface = ISlice "elem list" | INonSlice

text \<open>The type switch \<open>case item\<close>: whether the dynamic type implements \<open>item\<close>.\<close>

fun is_item :: "elem \<Rightarrow> bool" where
  "is_item EOther = False"
| "is_item x = True"

text \<open>
  \<open>x.(item).key()\<close>: the type assertion panics for a value that is not an \<open>item\<close>, the
  call panics for a nil pointer.
\<close>

fun key :: "elem \<Rightarrow> panic + string" where
  "key (EVolume vol) = Inr (v_Name vol)"
| "key (EVolumeReference vol) = Inr (Volume vol)"
| "key (EFile f) = Inr (f_Name f)"
| "key (EEnv env) = Inr (Env env)"
| "key (PVolume p) = (case p of None \<Rightarrow> Inl NilDereference | Some vol \<Rightarrow> Inr (v_Name vol))"
| "key (PVolumeReference p) = (case p of None \<Rightarrow> Inl NilDereference | Some vol \<Rightarrow> Inr (Volume vol))"
| "key (PFile p) = (case p of None \<Rightarrow> Inl NilDereference | Some f \<Rightarrow> Inr (f_Name f))"
| "key (PEnv p) = (case p of None \<Rightarrow> Inl NilDereference | Some env \<Rightarrow> Inr (Env env))"
| "key EOther = Inl InterfaceConversion"

definition InterfaceSlice :: "iface \<Rightarrow> error + elem list" where
  "InterfaceSlice slice0 =
     (case slice0 of
        INonSlice \<Rightarrow> Inl (Errorf ''InterfaceSlice() given a non-slice type'' [])
      | ISlice s \<Rightarrow> Inr s)"

text \<open>
  The \<open>map[string]bool\<close> of \<open>keySet\<close> only ever stores \<open>true\<close> and is only asked
  whether a key is present and whether it is empty: it is the set of its keys. The
  loop over \<open>tmp\<close> carries the set built so far. The result is \<open>Inl p\<close> when the call
  panics and \<open>Inr\<close> of the pair it returns otherwise.
\<close>

fun keySet_loop :: "elem list \<Rightarrow> string set \<Rightarrow> panic + bool \<times> string set" where
  "keySet_loop [] iset = Inr (True, iset)"
| "keySet_loop (x # tmp) iset =
     (if is_item x
      then (case key x of
              Inl p \<Rightarrow> Inl p
            | Inr kx \<Rightarrow>
                if kx \<in> iset then Inr (False, iset) else keySet_loop tmp (insert kx iset))
      else Inr (False, iset))"

definition keySet :: "iface \<Rightarrow> panic + bool \<times> string set" where
  "keySet ilist =
     (case InterfaceSlice ilist of
        Inl err \<Rightarrow> Inr (False, {})
      | Inr tmp \<Rightarrow> keySet_loop tmp {})"

section \<open>The random identifier generator: RandStr\<close>

text \<open>
  \<open>rand.Read\<close> of crypto/rand fills the buffer from the system's entropy source; the
  bytes it delivers are the parameter \<open>entropy\<close>. The buffer starts as \<open>strSize\<close>
  zero bytes, and \<open>RandStr\<close> ignores the result of \<open>rand.Read\<close>, so positions the
  source did not fill stay zero.
\<close>

definition make_bytes :: "nat \<Rightarrow> byte list" where
  "make_bytes n = replicate n 0"

definition rand_Read :: "byte list \<Rightarrow> byte list \<Rightarrow> byte list" where
  "rand_Read entropy bytes = take (length bytes) entropy @ drop (length entropy) bytes"

definition dictionary_of :: "string \<Rightarrow> string" where
  "dictionary_of randType =
     (let dictionary = [];
          dictionary = (if randType = ''alphanum''
                        then ''0123456789abcdefghijklmnopqrstuvwxyz'' else dictionary);
          dictionary = (if randType = ''alpha''
                        then ''ABCDEFGHIJKLMNOPQRSTUVWXYZabcdefghijklmnopqrstuvwxyz''
                        else dictionary);
          dictionary = (if randType = ''number'' then ''0123456789'' else dictionary)
      in dictionary)"

text \<open>
  The loop \<open>bytes[k] = dictionary[v%byte(len(dictionary))]\<close>: the remainder is taken
  on bytes, a zero divisor panics, and so does an index outside the dictionary.
\<close>

fun RandStr_loop :: "string \<Rightarrow> byte list \<Rightarrow> panic + string" where
  "RandStr_loop dictionary [] = Inr []"
| "RandStr_loop dictionary (v # bytes) =
     (if (word_of_nat (length dictionary) :: byte) = 0 then Inl DivideByZero
      else let i = unat (v mod word_of_nat (length dictionary)) in
        if \<not> i < length dictionary then Inl IndexOutOfRange
        else case RandStr_loop dictionary bytes of
               Inl p \<Rightarrow> Inl p
             | Inr s \<Rightarrow> Inr (dictionary ! i # s))"

definition RandStr :: "byte list \<Rightarrow> int \<Rightarrow> string \<Rightarrow> panic + string" where
  "RandStr entropy strSize randType =
     (let dictionary = dictionary_of randType in
      if strSize < 0 then Inl NegativeLen
      else RandStr_loop dictionary (rand_Read entropy (make_bytes (nat strSize))))"

section \<open>Decoding and defaulting: ProcessPodBytes\<close>

text \<open>
  \<open>json.Unmarshal\<close> belongs to Go's standard library; its result on the buffer is the
  parameter \<open>unmarshal\<close> (a decoding error, or the decoded record with every absent
  field at its zero value). The buffer \<open>body\<close> is a byte string. The result of \<open>ProcessPodBytes\<close> is \<open>Inl p\<close> for a panic,
  \<open>Inr (Inl err)\<close> for \<open>(nil, err)\<close> and \<open>Inr (Inr userPod)\<close> for \<open>(&userPod, nil)\<close>.
\<close>

text \<open>The first loop: \<open>None\<close> is the early return, \<open>Some n\<close> the final value of \<open>num\<close>.\<close>

fun count_images :: "UserContainer list \<Rightarrow> nat \<Rightarrow> nat option" where
  "count_images [] num = Some num"
| "count_images (v # vs) num = (if Image v = [] then None else count_images vs (Suc num))"

fun check_volume_names :: "UserVolume list \<Rightarrow> bool" where
  "check_volume_names [] = True"
| "check_volume_names (vol # vols) = (if v_Name vol = [] then False else check_volume_names vols)"

definition ProcessPodBytes ::
  "(string \<Rightarrow> error + UserPod) \<Rightarrow> byte list \<Rightarrow> string \<Rightarrow> panic + (error + UserPod)" where
  "ProcessPodBytes unmarshal entropy body =
     (case unmarshal body of
        Inl err \<Rightarrow> Inr (Inl err)
      | Inr decoded \<Rightarrow>
         (case (if Name decoded = []
                then map_sum id (\<lambda>s. decoded\<lparr>Name := s\<rparr>) (RandStr entropy 10 ''alphanum'')
                else Inr decoded) of
            Inl p \<Rightarrow> Inl p
          | Inr userPod1 \<Rightarrow>
             (let userPod2 = (if Vcpu (Resource userPod1) = 0
                              then userPod1\<lparr>Resource := (Resource userPod1)\<lparr>Vcpu := 1\<rparr>\<rparr>
                              else userPod1);
                  userPod = (if Memory (Resource userPod2) = 0
                             then userPod2\<lparr>Resource := (Resource userPod2)\<lparr>Memory := 128\<rparr>\<rparr>
                             else userPod2)
              in case count_images (Containers userPod) 0 of
                   None \<Rightarrow> Inr (Inl (Errorf
                     ''Please specific your image for your container, it can not be null!\<newline>'' []))
                 | Some num \<Rightarrow>
                     if num = 0 then Inr (Inl (Errorf
                       ''Please correct your POD file, the container section can not be null!\<newline>'' []))
                     else if \<not> check_volume_names (Volumes userPod) then Inr (Inl (Errorf
                       ''Hyper ERROR: please specific your volume name, it can not be null!\<newline>'' []))
                     else Inr (Inr userPod))))"

section \<open>Validation: Validate\<close>

text \<open>
  \<open>regexp.MustCompile("0[0-7]{3}")\<close> is a sequence of four character classes, and
  \<open>Match\<close> reports whether the text contains a match at any position (the pattern has
  no \<open>^\<close> or \<open>$\<close>).
\<close>

type_synonym regex = "char set list"

fun match_here :: "regex \<Rightarrow> string \<Rightarrow> bool" where
  "match_here [] s = True"
| "match_here (cls # r) [] = False"
| "match_here (cls # r) (c # s) = (c \<in> cls \<and> match_here r s)"

fun Match :: "regex \<Rightarrow> string \<Rightarrow> bool" where
  "Match r [] = match_here r []"
| "Match r (c # s) = (match_here r (c # s) \<or> Match r s)"

definition permReg :: regex where
  "permReg = {CHR ''0''} # replicate 3 (set ''01234567'')"

text \<open>
  The body of the loop over \<open>container.Files\<close>. The loop variable \<open>f\<close> is a copy of
  the slice element; the step returns the copy as the body leaves it, and the error the
  body returns with (\<open>None\<close>: the loop goes on).
\<close>

definition file_step ::
  "nat \<Rightarrow> string set \<Rightarrow> UserFileReference \<Rightarrow> UserFileReference \<times> error option" where
  "file_step idx fset f0 =
     (if Filename f0 \<notin> fset
      then (f0, Some (Errorf ''in container %d, file %s does not exist in file list.''
                        [ArgInt (int idx), ArgStr (Filename f0)]))
      else let f = (if Perm f0 = [] then f0\<lparr>Perm := ''0755''\<rparr> else f0) in
        if Perm f \<noteq> ''0'' \<and> \<not> Match permReg (Perm f)
        then (f, Some (Errorf
               ''in container %d, the permission %s only accept Octal digital in string'' []))
        else (f, None))"

fun files_loop :: "nat \<Rightarrow> string set \<Rightarrow> UserFileReference list \<Rightarrow> error option" where
  "files_loop idx fset [] = None"
| "files_loop idx fset (f # fs) =
     (case snd (file_step idx fset f) of
        Some err \<Rightarrow> Some err
      | None \<Rightarrow> files_loop idx fset fs)"

fun volumes_loop :: "nat \<Rightarrow> string set \<Rightarrow> UserVolumeReference list \<Rightarrow> error option" where
  "volumes_loop idx vset [] = None"
| "volumes_loop idx vset (v # vs) =
     (if Volume v \<notin> vset
      then Some (Errorf ''in container %d, volume %s does not exist in volume list.''
                   [ArgInt (int idx), ArgStr (Volume v)])
      else volumes_loop idx vset vs)"

text \<open>
  The body of the loop over \<open>pod.Containers\<close>, for the container at index \<open>idx\<close>:
  \<open>Inl p\<close> for a panic, \<open>Inr (Some err)\<close> for \<open>return err\<close>, \<open>Inr None\<close> when the
  loop goes on.
\<close>

definition container_step ::
  "string set \<Rightarrow> string set \<Rightarrow> nat \<Rightarrow> UserContainer \<Rightarrow> panic + error option" where
  "container_step vset fset idx container =
     (case keySet (ISlice (map EVolumeReference (c_Volumes container))) of
        Inl p \<Rightarrow> Inl p
      | Inr (uniq, _) \<Rightarrow>
          (if \<not> uniq
           then Inr (Some (Errorf ''in container %d, volume source are not unique''
                             [ArgInt (int idx)]))
           else (case keySet (ISlice (map EEnv (Envs container))) of
                   Inl p \<Rightarrow> Inl p
                 | Inr (uniq, _) \<Rightarrow>
                     (if \<not> uniq
                      then Inr (Some (Errorf ''in container %d, environment name are not unique''
                                        [ArgInt (int idx)]))
                      else (case files_loop idx fset (c_Files container) of
                              Some err \<Rightarrow> Inr (Some err)
                            | None \<Rightarrow> Inr (volumes_loop idx vset (c_Volumes container)))))))"

fun containers_loop ::
  "string set \<Rightarrow> string set \<Rightarrow> nat \<Rightarrow> UserContainer list \<Rightarrow> panic + error option" where
  "containers_loop vset fset idx [] = Inr None"
| "containers_loop vset fset idx (container # cs) =
     (case container_step vset fset idx container of
        Inl p \<Rightarrow> Inl p
      | Inr (Some err) \<Rightarrow> Inr (Some err)
      | Inr None \<Rightarrow> containers_loop vset fset (Suc idx) cs)"

text \<open>
  \<open>Validate\<close> has a pointer receiver: the model returns, when the method returns, the
  record \<open>pod\<close> points to and the error (\<open>Inl p\<close> when it panics instead). No
  statement of the method assigns through \<open>pod\<close>; the only assignment,
  \<open>f.Perm = "0755"\<close>, is to the loop's copy.
\<close>

definition Validate :: "UserPod \<Rightarrow> panic + UserPod \<times> error option" where
  "Validate pod =
     (case keySet (ISlice (map EVolume (Volumes pod))) of
        Inl p \<Rightarrow> Inl p
      | Inr (uniq, vset) \<Rightarrow>
          (if \<not> uniq \<and> vset \<noteq> {}
           then Inr (pod, Some (errors_New ''Volumes name does not unique''))
           else (case keySet (ISlice (map EFile (Files pod))) of
                   Inl p \<Rightarrow> Inl p
                 | Inr (uniq, fset) \<Rightarrow>
                     (if \<not> uniq \<and> fset \<noteq> {}
                      then Inr (pod, Some (errors_New ''Files name does not unique''))
                      else (case containers_loop vset fset 0 (Containers pod) of
                              Inl p \<Rightarrow> Inl p
                            | Inr err \<Rightarrow> Inr (pod, err))))))"

section \<open>Notions the statements use\<close>

text \<open>
  The permission check of one file reference, as the loop body decides it: the unset
  permission is replaced by \<open>"0755"\<close> first, the literal \<open>"0"\<close> is let through, anything
  else has to match \<open>permReg\<close>.
\<close>

definition perm_accepted :: "string \<Rightarrow> bool" where
  "perm_accepted perm =
     (let p = (if perm = [] then ''0755'' else perm) in p = ''0'' \<or> Match permReg p)"

text \<open>
  A file reference passes its two checks when its name is in the set of file names and
  its permission is accepted.
\<close>

definition file_ok :: "string set \<Rightarrow> UserFileReference \<Rightarrow> bool" where
  "file_ok fset f = (Filename f \<in> fset \<and> perm_accepted (Perm f))"

text \<open>The errors of the reference checks, as the source formats them.\<close>

definition permErr :: error where
  "permErr = Errorf ''in container %d, the permission %s only accept Octal digital in string'' []"

definition fileErr :: "nat \<Rightarrow> string \<Rightarrow> error" where
  "fileErr idx n = Errorf ''in container %d, file %s does not exist in file list.''
                     [ArgInt (int idx), ArgStr n]"

definition volumeErr :: "nat \<Rightarrow> string \<Rightarrow> error" where
  "volumeErr idx n = Errorf ''in container %d, volume %s does not exist in volume list.''
                     [ArgInt (int idx), ArgStr n]"

text \<open>
  A dangling reference: the container at index \<open>i\<close> has a file reference (a volume
  reference) with the name \<open>n\<close>, and the pod's file list (volume list) has no entry of
  that name.
\<close>

definition dangling_file :: "UserPod \<Rightarrow> nat \<Rightarrow> string \<Rightarrow> bool" where
  "dangling_file pod i n =
     (i < length (Containers pod) \<and> n \<in> set (map Filename (c_Files (Containers pod ! i))) \<and>
      n \<notin> set (map f_Name (Files pod)))"

definition dangling_volume :: "UserPod \<Rightarrow> nat \<Rightarrow> string \<Rightarrow> bool" where
  "dangling_volume pod i n =
     (i < length (Containers pod) \<and> n \<in> set (map Volume (c_Volumes (Containers pod ! i))) \<and>
      n \<notin> set (map v_Name (Volumes pod)))"

text \<open>
  The first failure of the reference checks, in the order in which \<open>Validate\<close> makes
  them: \<open>e\<close> is the error of the first check that fails when the containers are taken
  in the order of the list and, in each container, the file references first (each one
  for its name, then for its permission) and the volume references after them. So the
  containers before index \<open>i\<close> pass every check, and in container \<open>i\<close> either the file
  reference at some position \<open>k\<close> is the first that fails, or all file references pass
  and the volume reference at some position \<open>k\<close> is the first whose name is missing.
\<close>

definition first_failure :: "UserPod \<Rightarrow> nat \<Rightarrow> error \<Rightarrow> bool" where
  "first_failure pod i e =
     (let cs = Containers pod;
          fset = set (map f_Name (Files pod));
          vset = set (map v_Name (Volumes pod))
      in i < length cs \<and>
         list_all (\<lambda>c. list_all (file_ok fset) (c_Files c) \<and>
                       list_all (\<lambda>v. Volume v \<in> vset) (c_Volumes c)) (take i cs) \<and>
         (let fs = c_Files (cs ! i); vs = c_Volumes (cs ! i)
          in list_ex (\<lambda>k. list_all (file_ok fset) (take k fs) \<and> \<not> file_ok fset (fs ! k) \<and>
                            e = (if Filename (fs ! k) \<in> fset then permErr
                                 else fileErr i (Filename (fs ! k))))
               [0..<length fs] \<or>
             list_all (file_ok fset) fs \<and>
             list_ex (\<lambda>k. list_all (\<lambda>v. Volume v \<in> vset) (take k vs) \<and>
                            Volume (vs ! k) \<notin> vset \<and> e = volumeErr i (Volume (vs ! k)))
               [0..<length vs]))"

section \<open>Example inputs\<close>

text \<open>Records as \<open>json.Unmarshal\<close> leaves them: every field a document omits is zero.\<close>

definition container_of :: "string \<Rightarrow> UserContainer" where
  "container_of img =
     \<lparr>c_Name = [], Image = img, Command = [], Workdir = [], Entrypoint = [], Ports = [],
      Envs = [], c_Volumes = [], c_Files = [], RestartPolicy = []\<rparr>"

definition minimal_pod :: "string \<Rightarrow> UserPod" where
  "minimal_pod img =
     \<lparr>Name = [], Containers = [container_of img], Resource = \<lparr>Vcpu = 0, Memory = 0\<rparr>,
      Files = [], Volumes = [], Tty = False, Type = []\<rparr>"

text \<open>
  Four documents and the records they decode to; \<open>unmarshal_examples\<close> is
  \<open>json.Unmarshal\<close> on these documents (any other buffer is taken as malformed).
\<close>

definition busybox_doc :: string where
  \<open>busybox_doc = ''{"containers":[{"image":"busybox"}]}''\<close>

definition no_containers_doc :: string where
  \<open>no_containers_doc = ''{"containers":[],"id":"x"}''\<close>

definition no_image_doc :: string where
  \<open>no_image_doc = ''{"containers":[{"image":"busybox"},{"name":"web"}]}''\<close>

definition no_volume_name_doc :: string where
  \<open>no_volume_name_doc = ''{"containers":[{"image":"busybox"}],"volumes":[{"source":"/tmp"}]}''\<close>

definition unmarshal_examples :: "string \<Rightarrow> error + UserPod" where
  "unmarshal_examples body =
     (if body = busybox_doc then Inr (minimal_pod ''busybox'')
      else if body = no_containers_doc
        then Inr ((minimal_pod [])\<lparr>Name := ''x'', Containers := []\<rparr>)
      else if body = no_image_doc
        then Inr ((minimal_pod [])\<lparr>Containers :=
               [container_of ''busybox'', (container_of [])\<lparr>c_Name := ''web''\<rparr>]\<rparr>)
      else if body = no_volume_name_doc
        then Inr ((minimal_pod ''busybox'')\<lparr>Volumes :=
               [\<lparr>v_Name = [], Source = ''/tmp'', Driver = []\<rparr>]\<rparr>)
      else Inl ''unexpected end of JSON input'')"

definition file_ref :: "string \<Rightarrow> string \<Rightarrow> UserFileReference" where
  "file_ref filename perm =
     \<lparr>fr_Path = [], Filename = filename, Perm = perm, User = [], Group = []\<rparr>"

definition file_of :: "string \<Rightarrow> UserFile" where
  "file_of name = \<lparr>f_Name = name, Encoding = [], Uri = [], Contents = []\<rparr>"

definition volume_of :: "string \<Rightarrow> UserVolume" where
  "volume_of name = \<lparr>v_Name = name, Source = [], Driver = []\<rparr>"

definition pod_of :: "UserContainer list \<Rightarrow> UserFile list \<Rightarrow> UserVolume list \<Rightarrow> UserPod" where
  "pod_of cs fs vols =
     \<lparr>Name = ''p'', Containers = cs, Resource = \<lparr>Vcpu = 1, Memory = 128\<rparr>,
      Files = fs, Volumes = vols, Tty = False, Type = []\<rparr>"

text \<open>One container with one reference to the file \<open>f\<close> of the file list, with permission \<open>perm\<close>.\<close>

definition perm_pod :: "string \<Rightarrow> UserPod" where
  "perm_pod perm =
     pod_of [(container_of ''busybox'')\<lparr>c_Files := [file_ref ''f'' perm]\<rparr>] [file_of ''f''] []"

text \<open>The same reference in the second container, after a container without references.\<close>

definition perm_pod_second :: "string \<Rightarrow> UserPod" where
  "perm_pod_second perm =
     pod_of [container_of ''busybox'',
             (container_of ''busybox'')\<lparr>c_Files := [file_ref ''f'' perm]\<rparr>] [file_of ''f''] []"

text \<open>
  Container 0 refers to the existing file \<open>a\<close> with the permission \<open>abc\<close>; container 1
  refers to the file \<open>b\<close>, which the file list does not have.
\<close>

definition perm_before_dangling_pod :: UserPod where
  "perm_before_dangling_pod =
     pod_of [(container_of ''busybox'')\<lparr>c_Files := [file_ref ''a'' ''abc'']\<rparr>,
             (container_of ''busybox'')\<lparr>c_Files := [file_ref ''b'' []]\<rparr>] [file_of ''a''] []"

text \<open>Container 1 refers to the file \<open>b\<close> and to the volume \<open>v\<close>; neither exists.\<close>

definition dangling_pod :: UserPod where
  "dangling_pod =
     pod_of [container_of ''busybox'',
             (container_of ''busybox'')
               \<lparr>c_Volumes := [\<lparr>vr_Path = ''/data'', Volume = ''v'', ReadOnly = False\<rparr>],
                c_Files := [file_ref ''b'' []]\<rparr>] [file_of ''a''] []"

text \<open>Every reference resolves: container 0 mounts the file \<open>a\<close> and the volume \<open>v\<close>.\<close>

definition resolved_pod :: UserPod where
  "resolved_pod =
     pod_of [(container_of ''busybox'')
               \<lparr>c_Volumes := [\<lparr>vr_Path = ''/data'', Volume = ''v'', ReadOnly = False\<rparr>],
                c_Files := [file_ref ''a'' ''0644'']\<rparr>] [file_of ''a''] [volume_of ''v'']"

section \<open>Facts about keySet\<close>

lemma key_is_item: "key x = Inr k \<Longrightarrow> is_item x"
  by (cases x) auto

lemma keySet_loop_all:
  "map key xs = map Inr ks \<Longrightarrow> distinct ks \<Longrightarrow> set ks \<inter> iset = {} \<Longrightarrow>
   keySet_loop xs iset = Inr (True, iset \<union> set ks)"
proof (induction xs arbitrary: ks iset)
  case Nil
  then show ?case by simp
next
  case (Cons x xs)
  then obtain k ks' where ks: "ks = k # ks'" "key x = Inr k" "map key xs = map Inr ks'"
    by (cases ks) auto
  have "keySet_loop xs (insert k iset) = Inr (True, insert k iset \<union> set ks')"
    using Cons.prems ks by (intro Cons.IH) auto
  then show ?case using Cons.prems ks key_is_item [OF ks(2)] by auto
qed

lemma keySet_loop_dup:
  "map key xs = map Inr ks \<Longrightarrow> \<not> (distinct ks \<and> set ks \<inter> iset = {}) \<Longrightarrow>
   \<exists>n<length ks. distinct (take n ks) \<and> set (take n ks) \<inter> iset = {} \<and>
      ks ! n \<in> iset \<union> set (take n ks) \<and>
      keySet_loop xs iset = Inr (False, iset \<union> set (take n ks))"
proof (induction xs arbitrary: ks iset)
  case Nil
  then show ?case by simp
next
  case (Cons x xs)
  then obtain k ks' where ks: "ks = k # ks'" "key x = Inr k" "map key xs = map Inr ks'"
    by (cases ks) auto
  note it = key_is_item [OF ks(2)]
  show ?case
  proof (cases "k \<in> iset")
    case True
    then have "keySet_loop (x # xs) iset = Inr (False, iset)" using ks it by simp
    then show ?thesis using True ks by (intro exI [of _ 0]) simp
  next
    case False
    then have "\<not> (distinct ks' \<and> set ks' \<inter> insert k iset = {})"
      using Cons.prems(2) ks by auto
    from Cons.IH [OF ks(3) this] obtain n where n: "n < length ks'"
      "distinct (take n ks')" "set (take n ks') \<inter> insert k iset = {}"
      "ks' ! n \<in> insert k iset \<union> set (take n ks')"
      "keySet_loop xs (insert k iset) = Inr (False, insert k iset \<union> set (take n ks'))"
      by blast
    show ?thesis
      using n False ks it by (intro exI [of _ "Suc n"]) auto
  qed
qed

lemma keySet_loop_stop:
  "map key pre = map Inr ks \<Longrightarrow> distinct ks \<Longrightarrow> set ks \<inter> iset = {} \<Longrightarrow>
   keySet_loop (pre @ x # post) iset =
     (if is_item x
      then (case key x of
              Inl p \<Rightarrow> Inl p
            | Inr kx \<Rightarrow> if kx \<in> iset \<union> set ks then Inr (False, iset \<union> set ks)
                       else keySet_loop post (insert kx (iset \<union> set ks)))
      else Inr (False, iset \<union> set ks))"
proof (induction pre arbitrary: ks iset)
  case Nil
  then have "ks = []" by simp
  then show ?case by (cases "key x") simp_all
next
  case (Cons y pre)
  then obtain k ks' where ks: "ks = k # ks'" "key y = Inr k" "map key pre = map Inr ks'"
    by (cases ks) auto
  have e: "insert k iset \<union> set ks' = iset \<union> set ks" using ks by auto
  have "keySet_loop (pre @ x # post) (insert k iset) =
     (if is_item x
      then (case key x of
              Inl p \<Rightarrow> Inl p
            | Inr kx \<Rightarrow> if kx \<in> insert k iset \<union> set ks' then Inr (False, insert k iset \<union> set ks')
                       else keySet_loop post (insert kx (insert k iset \<union> set ks')))
      else Inr (False, insert k iset \<union> set ks'))"
    using Cons.prems ks by (intro Cons.IH) auto
  moreover have "keySet_loop ((y # pre) @ x # post) iset = keySet_loop (pre @ x # post) (insert k iset)"
    using Cons.prems ks key_is_item [OF ks(2)] by auto
  ultimately show ?case unfolding e by simp
qed

lemma keySet_typed:
  assumes "\<And>a. key (emb a) = Inr (kf a)"
  shows "\<exists>iset. keySet (ISlice (map emb as)) = Inr (distinct (map kf as), iset) \<and>
           (distinct (map kf as) \<longrightarrow> iset = set (map kf as)) \<and>
           (\<not> distinct (map kf as) \<longrightarrow> iset \<noteq> {})"
proof (cases "distinct (map kf as)")
  case True
  have m: "map key (map emb as) = map Inr (map kf as)" using assms by simp
  show ?thesis
    using keySet_loop_all [OF m True, of "{}"] True
    by (simp add: keySet_def InterfaceSlice_def)
next
  case False
  have m: "map key (map emb as) = map Inr (map kf as)" using assms by simp
  from keySet_loop_dup [OF m, of "{}"] False
  obtain n where n: "n < length (map kf as)" "map kf as ! n \<in> set (take n (map kf as))"
    "keySet_loop (map emb as) {} = Inr (False, set (take n (map kf as)))"
    by auto
  have "set (take n (map kf as)) \<noteq> {}" using n(2) by (metis empty_iff)
  then show ?thesis
    using n(3) False by (simp add: keySet_def InterfaceSlice_def)
qed

section \<open>Facts about RandStr and the loops of ProcessPodBytes\<close>

lemma dictionary_alphanum:
  "dictionary_of ''alphanum'' = ''0123456789abcdefghijklmnopqrstuvwxyz''"
  by (simp add: dictionary_of_def)

lemma length_rand_Read: "length (rand_Read entropy bytes) = length bytes"
  by (simp add: rand_Read_def min_def)

lemma RandStr_loop_ok:
  assumes "0 < length d" "length d < 256"
  shows "\<exists>s. RandStr_loop d bytes = Inr s \<and> length s = length bytes \<and> set s \<subseteq> set d"
proof (induction bytes)
  case Nil
  then show ?case by simp
next
  case (Cons v bytes)
  have u: "unat (word_of_nat (length d) :: byte) = length d"
    using assms by (simp add: unat_of_nat)
  then have nz: "(word_of_nat (length d) :: byte) \<noteq> 0"
    using assms by (metis less_numeral_extra(3) unat_0)
  have "unat (v mod word_of_nat (length d)) < length d"
    using u assms by (simp add: unat_mod)
  then show ?case using Cons nz by (auto simp: Let_def)
qed

lemma RandStr_alphanum:
  "\<exists>s. RandStr entropy 10 ''alphanum'' = Inr s \<and> length s = 10 \<and>
     set s \<subseteq> set (dictionary_of ''alphanum'')"
proof -
  have "0 < length (dictionary_of ''alphanum'')" "length (dictionary_of ''alphanum'') < 256"
    by (simp_all add: dictionary_alphanum)
  from RandStr_loop_ok [OF this, of "rand_Read entropy (make_bytes (nat 10))"]
  show ?thesis
    by (simp add: RandStr_def length_rand_Read make_bytes_def del: set_simps)
qed

lemma count_images_eq:
  "count_images cs num = (if \<exists>c\<in>set cs. Image c = [] then None else Some (num + length cs))"
  by (induction cs arbitrary: num) auto

lemma check_volume_names_eq:
  "check_volume_names vols = (\<forall>vol\<in>set vols. v_Name vol \<noteq> [])"
  by (induction vols) auto

section \<open>Facts about Validate\<close>

lemma keySet_volumes:
  "\<exists>iset. keySet (ISlice (map EVolume vols)) = Inr (distinct (map v_Name vols), iset) \<and>
     (distinct (map v_Name vols) \<longrightarrow> iset = set (map v_Name vols)) \<and>
     (\<not> distinct (map v_Name vols) \<longrightarrow> iset \<noteq> {})"
  by (rule keySet_typed) simp

lemma keySet_files:
  "\<exists>iset. keySet (ISlice (map EFile fs)) = Inr (distinct (map f_Name fs), iset) \<and>
     (distinct (map f_Name fs) \<longrightarrow> iset = set (map f_Name fs)) \<and>
     (\<not> distinct (map f_Name fs) \<longrightarrow> iset \<noteq> {})"
  by (rule keySet_typed) simp

lemma keySet_volume_refs:
  "\<exists>iset. keySet (ISlice (map EVolumeReference vs)) = Inr (distinct (map Volume vs), iset)"
  using keySet_typed [of EVolumeReference Volume vs] by auto

lemma keySet_envs:
  "\<exists>iset. keySet (ISlice (map EEnv es)) = Inr (distinct (map Env es), iset)"
  using keySet_typed [of EEnv Env es] by auto

lemma file_step_err:
  "snd (file_step idx fset f) =
     (if Filename f \<notin> fset then Some (fileErr idx (Filename f))
      else if perm_accepted (Perm f) then None else Some permErr)"
  by (simp add: file_step_def perm_accepted_def Let_def permErr_def fileErr_def)

lemma files_loop_None:
  "files_loop idx fset fs = None \<longleftrightarrow> list_all (file_ok fset) fs"
  by (induction fs) (auto simp: file_step_err file_ok_def)

text \<open>The error of the loop over the file references is that of the first reference that fails.\<close>

lemma files_loop_first:
  "files_loop idx fset fs = Some e \<Longrightarrow>
     \<exists>k<length fs. list_all (file_ok fset) (take k fs) \<and> \<not> file_ok fset (fs ! k) \<and>
        e = (if Filename (fs ! k) \<in> fset then permErr else fileErr idx (Filename (fs ! k)))"
proof (induction fs)
  case Nil
  then show ?case by simp
next
  case (Cons f fs)
  show ?case
  proof (cases "file_ok fset f")
    case True
    then have "files_loop idx fset fs = Some e"
      using Cons.prems by (simp add: file_step_err file_ok_def)
    from Cons.IH [OF this] obtain k where k: "k < length fs"
      "list_all (file_ok fset) (take k fs)" "\<not> file_ok fset (fs ! k)"
      "e = (if Filename (fs ! k) \<in> fset then permErr else fileErr idx (Filename (fs ! k)))"
      by blast
    show ?thesis
      by (rule exI [of _ "Suc k"]) (use k True in simp)
  next
    case False
    then have "e = (if Filename f \<in> fset then permErr else fileErr idx (Filename f))"
      using Cons.prems by (auto simp: file_step_err file_ok_def split: if_splits)
    then show ?thesis
      by (intro exI [of _ 0]) (use False in simp)
  qed
qed

lemma volumes_loop_None:
  "volumes_loop idx vset vs = None \<longleftrightarrow> list_all (\<lambda>v. Volume v \<in> vset) vs"
  by (induction vs) auto

lemma volumes_loop_first:
  "volumes_loop idx vset vs = Some e \<Longrightarrow>
     \<exists>k<length vs. list_all (\<lambda>v. Volume v \<in> vset) (take k vs) \<and> Volume (vs ! k) \<notin> vset \<and>
        e = volumeErr idx (Volume (vs ! k))"
proof (induction vs)
  case Nil
  then show ?case by simp
next
  case (Cons v vs)
  show ?case
  proof (cases "Volume v \<in> vset")
    case True
    then have "volumes_loop idx vset vs = Some e" using Cons.prems by simp
    from Cons.IH [OF this] obtain k where k: "k < length vs"
      "list_all (\<lambda>v. Volume v \<in> vset) (take k vs)" "Volume (vs ! k) \<notin> vset"
      "e = volumeErr idx (Volume (vs ! k))"
      by blast
    show ?thesis
      by (rule exI [of _ "Suc k"]) (use k True in simp)
  next
    case False
    then have "e = volumeErr idx (Volume v)"
      using Cons.prems by (simp add: volumeErr_def)
    then show ?thesis
      by (intro exI [of _ 0]) (use False in simp)
  qed
qed

lemma container_step_eq:
  "container_step vset fset idx c =
     Inr (if \<not> distinct (map Volume (c_Volumes c))
          then Some (Errorf ''in container %d, volume source are not unique'' [ArgInt (int idx)])
          else if \<not> distinct (map Env (Envs c))
          then Some (Errorf ''in container %d, environment name are not unique'' [ArgInt (int idx)])
          else (case files_loop idx fset (c_Files c) of
                  Some err \<Rightarrow> Some err
                | None \<Rightarrow> volumes_loop idx vset (c_Volumes c)))"
proof -
  obtain s1 where 1: "keySet (ISlice (map EVolumeReference (c_Volumes c))) =
      Inr (distinct (map Volume (c_Volumes c)), s1)"
    using keySet_volume_refs by blast
  obtain s2 where 2: "keySet (ISlice (map EEnv (Envs c))) = Inr (distinct (map Env (Envs c)), s2)"
    using keySet_envs by blast
  show ?thesis
    unfolding container_step_def 1 2 by (simp split: option.splits)
qed

lemma container_step_None:
  "container_step vset fset idx c = Inr None \<longleftrightarrow>
     distinct (map Volume (c_Volumes c)) \<and> distinct (map Env (Envs c)) \<and>
     list_all (file_ok fset) (c_Files c) \<and> list_all (\<lambda>v. Volume v \<in> vset) (c_Volumes c)"
  using files_loop_None [of idx fset "c_Files c"] volumes_loop_None [of idx vset "c_Volumes c"]
  by (cases "files_loop idx fset (c_Files c)") (simp_all add: container_step_eq)

text \<open>
  The error of a container without duplicates is that of its first file reference that
  fails, or else that of its first volume reference that fails.
\<close>

lemma container_step_first:
  assumes "container_step vset fset idx c = Inr (Some e)"
    and "distinct (map Volume (c_Volumes c))" "distinct (map Env (Envs c))"
  shows "(\<exists>k<length (c_Files c). list_all (file_ok fset) (take k (c_Files c)) \<and>
            \<not> file_ok fset (c_Files c ! k) \<and>
            e = (if Filename (c_Files c ! k) \<in> fset then permErr
                 else fileErr idx (Filename (c_Files c ! k)))) \<or>
         (list_all (file_ok fset) (c_Files c) \<and>
          (\<exists>k<length (c_Volumes c). list_all (\<lambda>v. Volume v \<in> vset) (take k (c_Volumes c)) \<and>
             Volume (c_Volumes c ! k) \<notin> vset \<and> e = volumeErr idx (Volume (c_Volumes c ! k))))"
proof (cases "files_loop idx fset (c_Files c)")
  case None
  then have "volumes_loop idx vset (c_Volumes c) = Some e"
    using assms by (simp add: container_step_eq)
  from volumes_loop_first [OF this] None show ?thesis
    by (simp only: files_loop_None simp_thms)
next
  case (Some e')
  then have "files_loop idx fset (c_Files c) = Some e"
    using assms by (simp add: container_step_eq)
  from files_loop_first [OF this] show ?thesis by (rule disjI1)
qed

lemma containers_loop_Inr: "\<exists>r. containers_loop vset fset idx cs = Inr r"
  by (induction cs arbitrary: idx) (auto simp: container_step_eq split: option.splits)

lemma containers_loop_None:
  "containers_loop vset fset idx cs = Inr None \<longleftrightarrow>
     (\<forall>i<length cs. container_step vset fset (idx + i) (cs ! i) = Inr None)"
proof (induction cs arbitrary: idx)
  case Nil
  then show ?case by simp
next
  case (Cons c cs)
  obtain r where r: "container_step vset fset idx c = Inr r"
    using container_step_eq by blast
  show ?case
  proof (cases r)
    case None
    then show ?thesis using Cons.IH [of "Suc idx"] r
      by (auto simp: less_Suc_eq_0_disj)
  next
    case (Some e)
    then show ?thesis using r by auto
  qed
qed

text \<open>The error of the loop over the containers is that of the first container that fails.\<close>

lemma containers_loop_Some:
  "containers_loop vset fset idx cs = Inr (Some e) \<Longrightarrow>
     \<exists>i<length cs. container_step vset fset (idx + i) (cs ! i) = Inr (Some e) \<and>
        (\<forall>j<i. container_step vset fset (idx + j) (cs ! j) = Inr None)"
proof (induction cs arbitrary: idx)
  case Nil
  then show ?case by simp
next
  case (Cons c cs)
  obtain r where r: "container_step vset fset idx c = Inr r"
    using container_step_eq by blast
  show ?case
  proof (cases r)
    case None
    then have "containers_loop vset fset (Suc idx) cs = Inr (Some e)"
      using Cons.prems r by simp
    from Cons.IH [OF this] obtain i where i: "i < length cs"
      "container_step vset fset (Suc idx + i) (cs ! i) = Inr (Some e)"
      "\<forall>j<i. container_step vset fset (Suc idx + j) (cs ! j) = Inr None" by blast
    have "\<forall>j<Suc i. container_step vset fset (idx + j) ((c # cs) ! j) = Inr None"
      using i(3) None r by (auto simp: less_Suc_eq_0_disj)
    then show ?thesis using i(1,2) by (intro exI [of _ "Suc i"]) simp
  next
    case (Some e')
    then have "e' = e" using Cons.prems r by simp
    then show ?thesis using Some r by (intro exI [of _ 0]) simp
  qed
qed

lemma Validate_unfold:
  assumes "containers_loop (set (map v_Name (Volumes pod))) (set (map f_Name (Files pod))) 0
      (Containers pod) = Inr r"
  shows "Validate pod =
     Inr (pod,
       if \<not> distinct (map v_Name (Volumes pod))
       then Some (errors_New ''Volumes name does not unique'')
       else if \<not> distinct (map f_Name (Files pod))
       then Some (errors_New ''Files name does not unique'')
       else r)"
proof -
  obtain vset where v: "keySet (ISlice (map EVolume (Volumes pod))) =
      Inr (distinct (map v_Name (Volumes pod)), vset)"
    "distinct (map v_Name (Volumes pod)) \<longrightarrow> vset = set (map v_Name (Volumes pod))"
    "\<not> distinct (map v_Name (Volumes pod)) \<longrightarrow> vset \<noteq> {}"
    using keySet_volumes by blast
  obtain fset where f: "keySet (ISlice (map EFile (Files pod))) =
      Inr (distinct (map f_Name (Files pod)), fset)"
    "distinct (map f_Name (Files pod)) \<longrightarrow> fset = set (map f_Name (Files pod))"
    "\<not> distinct (map f_Name (Files pod)) \<longrightarrow> fset \<noteq> {}"
    using keySet_files by blast
  show ?thesis
    unfolding Validate_def v(1) f(1) using v(2,3) f(2,3) assms by (auto simp del: set_map)
qed

lemma Validate_returns: "\<exists>err. Validate pod = Inr (pod, err)"
  using Validate_unfold containers_loop_Inr by blast

section \<open>Facts about the messages and about ProcessPodBytes\<close>

lemmas example_defs =
  perm_pod_def perm_pod_second_def perm_before_dangling_pod_def dangling_pod_def
  resolved_pod_def pod_of_def container_of_def file_ref_def file_of_def volume_of_def
  minimal_pod_def

lemma Errorf_plain: "CHR ''%'' \<notin> set s \<Longrightarrow> Errorf s [] = s"
  by (induction s "[] :: arg list" rule: Errorf.induct) (auto simp: Errorf.simps)

lemma permErr_message:
  "permErr =
     ''in container %!d(MISSING), the permission %!s(MISSING) only accept Octal digital in string''"
  unfolding permErr_def by code_simp

lemma ProcessPodBytes_decoded:
  assumes "unmarshal body = Inr decoded"
  shows "ProcessPodBytes unmarshal entropy body =
     (if \<exists>c\<in>set (Containers decoded). Image c = []
      then Inr (Inl ''Please specific your image for your container, it can not be null!\<newline>'')
      else if Containers decoded = []
      then Inr (Inl ''Please correct your POD file, the container section can not be null!\<newline>'')
      else if \<exists>vol\<in>set (Volumes decoded). v_Name vol = []
      then Inr (Inl ''Hyper ERROR: please specific your volume name, it can not be null!\<newline>'')
      else Inr (Inr (decoded
        \<lparr>Name := (if Name decoded = [] then projr (RandStr entropy 10 ''alphanum'')
                   else Name decoded),
         Resource := \<lparr>Vcpu = (if Vcpu (Resource decoded) = 0 then 1
                               else Vcpu (Resource decoded)),
                      Memory = (if Memory (Resource decoded) = 0 then 128
                                else Memory (Resource decoded))\<rparr>\<rparr>)))"
proof -
  obtain s where s: "RandStr entropy 10 ''alphanum'' = Inr s"
    using RandStr_alphanum by blast
  have r: "Resource decoded = \<lparr>Vcpu = Vcpu (Resource decoded), Memory = Memory (Resource decoded)\<rparr>"
    by simp
  show ?thesis
    unfolding ProcessPodBytes_def using assms
    by (cases "Containers decoded")
      (auto simp: s count_images_eq check_volume_names_eq Errorf_plain Let_def)
qed


section \<open>The claims about RandStr and ProcessPodBytes\<close>

lemmas doc_defs =
  unmarshal_examples_def busybox_doc_def no_containers_doc_def no_image_doc_def
  no_volume_name_doc_def

text \<open>
  Claim C8. Whatever bytes the entropy source delivers, \<open>RandStr(10, "alphanum")\<close> returns
  (it does not panic) a string of exactly 10 characters, each of them one of the 36
  symbols \<open>0-9a-z\<close>.
\<close>

theorem RandStr_alphanum_10:
  "\<exists>s. RandStr entropy 10 ''alphanum'' = Inr s \<and> length s = 10 \<and>
       (\<forall>c\<in>set s. c \<in> set ''0123456789abcdefghijklmnopqrstuvwxyz'')"
proof -
  obtain s where s: "RandStr entropy 10 ''alphanum'' = Inr s" "length s = 10"
    "set s \<subseteq> set (dictionary_of ''alphanum'')"
    using RandStr_alphanum by blast
  from s(3) have "\<forall>c\<in>set s. c \<in> set ''0123456789abcdefghijklmnopqrstuvwxyz''"
    unfolding dictionary_alphanum by blast
  with s(1,2) show ?thesis by blast
qed

theorem RandStr_alphanum_10_witness:
  "\<exists>s. RandStr [1, 2, 3, 200, 255] 10 ''alphanum'' = Inr s \<and> length s = 10 \<and>
       (\<forall>c\<in>set s. c \<in> set ''0123456789abcdefghijklmnopqrstuvwxyz'')"
  by (rule RandStr_alphanum_10)

text \<open>
  Claim C2. For a document that decodes, \<open>ProcessPodBytes\<close> returns no record but the
  zero-containers error when the container list is empty, whatever the other fields are,
  and the missing-image error when some container has an empty image, whatever the other
  containers are.
\<close>

theorem ProcessPodBytes_containers_required:
  assumes "unmarshal body = Inr decoded"
  shows "(Containers decoded = [] \<longrightarrow>
            ProcessPodBytes unmarshal entropy body =
              Inr (Inl ''Please correct your POD file, the container section can not be null!\<newline>'')) \<and>
         ((\<exists>c\<in>set (Containers decoded). Image c = []) \<longrightarrow>
            ProcessPodBytes unmarshal entropy body =
              Inr (Inl ''Please specific your image for your container, it can not be null!\<newline>''))"
  using assms by (auto simp: ProcessPodBytes_decoded [where unmarshal = unmarshal and body = body])

theorem ProcessPodBytes_containers_required_witness:
  "unmarshal_examples no_containers_doc =
     Inr ((minimal_pod [])\<lparr>Name := ''x'', Containers := []\<rparr>) \<and>
   ProcessPodBytes unmarshal_examples [7, 7] no_containers_doc =
     Inr (Inl ''Please correct your POD file, the container section can not be null!\<newline>'') \<and>
   unmarshal_examples no_image_doc =
     Inr ((minimal_pod [])\<lparr>Containers :=
            [container_of ''busybox'', (container_of [])\<lparr>c_Name := ''web''\<rparr>]\<rparr>) \<and>
   ProcessPodBytes unmarshal_examples [7, 7] no_image_doc =
     Inr (Inl ''Please specific your image for your container, it can not be null!\<newline>'')"
proof -
  have a: "unmarshal_examples no_containers_doc =
      Inr ((minimal_pod [])\<lparr>Name := ''x'', Containers := []\<rparr>)"
    by (simp add: doc_defs)
  have b: "unmarshal_examples no_image_doc =
      Inr ((minimal_pod [])\<lparr>Containers :=
            [container_of ''busybox'', (container_of [])\<lparr>c_Name := ''web''\<rparr>]\<rparr>)"
    by (simp add: doc_defs)
  show ?thesis
    using ProcessPodBytes_containers_required [where unmarshal = unmarshal_examples
        and body = no_containers_doc and entropy = "[7, 7]", OF a]
      ProcessPodBytes_containers_required [where unmarshal = unmarshal_examples
        and body = no_image_doc and entropy = "[7, 7]", OF b] a b
    by (simp add: container_of_def)
qed

text \<open>
  Claim C10. For a document that decodes, has at least one container and no container
  with an empty image, \<open>ProcessPodBytes\<close> still returns no record but the volume-name
  error when some entry of the top-level volume list has an empty name.
\<close>

theorem ProcessPodBytes_volume_name_required:
  assumes "unmarshal body = Inr decoded"
    and "Containers decoded \<noteq> []"
    and "\<forall>c\<in>set (Containers decoded). Image c \<noteq> []"
    and "\<exists>vol\<in>set (Volumes decoded). v_Name vol = []"
  shows "ProcessPodBytes unmarshal entropy body =
           Inr (Inl ''Hyper ERROR: please specific your volume name, it can not be null!\<newline>'')"
  using assms by (simp add: ProcessPodBytes_decoded [where unmarshal = unmarshal and body = body])

theorem ProcessPodBytes_volume_name_required_witness:
  "unmarshal_examples no_volume_name_doc =
     Inr ((minimal_pod ''busybox'')\<lparr>Volumes := [\<lparr>v_Name = [], Source = ''/tmp'', Driver = []\<rparr>]\<rparr>) \<and>
   ProcessPodBytes unmarshal_examples [] no_volume_name_doc =
     Inr (Inl ''Hyper ERROR: please specific your volume name, it can not be null!\<newline>'')"
proof -
  have a: "unmarshal_examples no_volume_name_doc =
     Inr ((minimal_pod ''busybox'')\<lparr>Volumes := [\<lparr>v_Name = [], Source = ''/tmp'', Driver = []\<rparr>]\<rparr>)"
    by (simp add: doc_defs)
  show ?thesis
    using ProcessPodBytes_volume_name_required [where unmarshal = unmarshal_examples
        and body = no_volume_name_doc and entropy = "[]", OF a] a
    by (simp add: minimal_pod_def container_of_def)
qed

text \<open>
  Claim C6. For a document that decodes to one container with a non-empty image and
  nothing else, \<open>ProcessPodBytes\<close> returns a record with \<open>vcpu = 1\<close>,
  \<open>memory = 128\<close> and the name \<open>RandStr(10, "alphanum")\<close> generated: 10 characters
  from \<open>0-9a-z\<close>; \<open>Validate\<close> returns \<open>nil\<close> on that record.
\<close>

theorem ProcessPodBytes_minimal:
  assumes "unmarshal body = Inr (minimal_pod img)" and "img \<noteq> []"
  shows "\<exists>pod. ProcessPodBytes unmarshal entropy body = Inr (Inr pod) \<and>
           Vcpu (Resource pod) = 1 \<and> Memory (Resource pod) = 128 \<and>
           RandStr entropy 10 ''alphanum'' = Inr (Name pod) \<and>
           length (Name pod) = 10 \<and>
           set (Name pod) \<subseteq> set ''0123456789abcdefghijklmnopqrstuvwxyz'' \<and>
           Validate pod = Inr (pod, None)"
proof -
  obtain s where s: "RandStr entropy 10 ''alphanum'' = Inr s" "length s = 10"
    "set s \<subseteq> set ''0123456789abcdefghijklmnopqrstuvwxyz''"
    using RandStr_alphanum unfolding dictionary_alphanum by blast
  let ?pod = "(minimal_pod img)\<lparr>Name := s, Resource := \<lparr>Vcpu = 1, Memory = 128\<rparr>\<rparr>"
  have p: "ProcessPodBytes unmarshal entropy body = Inr (Inr ?pod)"
    using assms
    by (simp add: ProcessPodBytes_decoded [where unmarshal = unmarshal and body = body] s
        minimal_pod_def container_of_def)
  have "container_step {} {} 0 (container_of img) = Inr None"
    by (simp add: container_step_None container_of_def)
  then have "containers_loop (set (map v_Name (Volumes ?pod))) (set (map f_Name (Files ?pod))) 0
      (Containers ?pod) = Inr None"
    by (simp add: minimal_pod_def)
  then have "Validate ?pod = Inr (?pod, if \<not> distinct (map v_Name (Volumes ?pod))
       then Some (errors_New ''Volumes name does not unique'')
       else if \<not> distinct (map f_Name (Files ?pod))
       then Some (errors_New ''Files name does not unique'')
       else None)"
    by (rule Validate_unfold)
  then have v: "Validate ?pod = Inr (?pod, None)"
    by (simp add: minimal_pod_def)
  show ?thesis
    using p v s by (intro exI [of _ ?pod]) (simp add: minimal_pod_def del: set_simps)
qed

theorem ProcessPodBytes_minimal_witness:
  "unmarshal_examples busybox_doc = Inr (minimal_pod ''busybox'') \<and> ''busybox'' \<noteq> [] \<and>
   (\<exists>pod. ProcessPodBytes unmarshal_examples [1, 2, 3, 200, 255] busybox_doc = Inr (Inr pod) \<and>
           Vcpu (Resource pod) = 1 \<and> Memory (Resource pod) = 128 \<and>
           RandStr [1, 2, 3, 200, 255] 10 ''alphanum'' = Inr (Name pod) \<and>
           length (Name pod) = 10 \<and>
           set (Name pod) \<subseteq> set ''0123456789abcdefghijklmnopqrstuvwxyz'' \<and>
           Validate pod = Inr (pod, None))"
proof -
  have a: "unmarshal_examples busybox_doc = Inr (minimal_pod ''busybox'')"
    by (simp add: doc_defs)
  have b: "''busybox'' \<noteq> []" by simp
  show ?thesis
    using ProcessPodBytes_minimal [where unmarshal = unmarshal_examples and body = busybox_doc
        and entropy = "[1, 2, 3, 200, 255]", OF a b] a by (simp del: set_simps)
qed

text \<open>
  Claim C9, as stated, fails: on the document \<open>{"containers":[{"image":"busybox"}]}\<close>,
  which has no id, two runs that draw different bytes from crypto/rand return records
  with different names.
\<close>

theorem ProcessPodBytes_name_from_entropy:
  "ProcessPodBytes unmarshal_examples [1] busybox_doc \<noteq>
   ProcessPodBytes unmarshal_examples [2] busybox_doc"
proof -
  have a: "unmarshal_examples busybox_doc = Inr (minimal_pod ''busybox'')"
    by (simp add: doc_defs)
  have 1: "RandStr [1] 10 ''alphanum'' = Inr ''1000000000''" by code_simp
  have 2: "RandStr [2] 10 ''alphanum'' = Inr ''2000000000''" by code_simp
  show ?thesis
    using a
    by (simp add: ProcessPodBytes_decoded [where unmarshal = unmarshal_examples
          and body = busybox_doc] 1 2 minimal_pod_def container_of_def)
qed

text \<open>
  Claim C9, amended. Two runs of \<open>ProcessPodBytes\<close> on the same buffer return identical
  results, except that when the document decodes with an empty or absent id both runs
  may succeed with records that differ in the generated name and in nothing else.
\<close>

theorem ProcessPodBytes_deterministic_up_to_name:
  "ProcessPodBytes unmarshal e1 body = ProcessPodBytes unmarshal e2 body \<or>
   (\<exists>decoded pod1 pod2. unmarshal body = Inr decoded \<and> Name decoded = [] \<and>
      ProcessPodBytes unmarshal e1 body = Inr (Inr pod1) \<and>
      ProcessPodBytes unmarshal e2 body = Inr (Inr pod2) \<and>
      RandStr e1 10 ''alphanum'' = Inr (Name pod1) \<and>
      RandStr e2 10 ''alphanum'' = Inr (Name pod2) \<and>
      pod2 = pod1\<lparr>Name := Name pod2\<rparr>)"
proof (cases "unmarshal body")
  case (Inl err)
  then show ?thesis by (simp add: ProcessPodBytes_def)
next
  case (Inr decoded)
  obtain s1 where s1: "RandStr e1 10 ''alphanum'' = Inr s1"
    using RandStr_alphanum by blast
  obtain s2 where s2: "RandStr e2 10 ''alphanum'' = Inr s2"
    using RandStr_alphanum by blast
  show ?thesis
    using Inr
    by (simp add: ProcessPodBytes_decoded [where unmarshal = unmarshal and body = body] s1 s2)
qed

section \<open>The claims about keySet and Validate\<close>

lemma Match_iff: "Match r s \<longleftrightarrow> (\<exists>pre post. s = pre @ post \<and> match_here r post)"
proof (induction s)
  case Nil
  then show ?case by simp
next
  case (Cons c s)
  show ?case
  proof
    assume "Match r (c # s)"
    then consider "match_here r (c # s)" | "Match r s" by auto
    then show "\<exists>pre post. c # s = pre @ post \<and> match_here r post"
    proof cases
      case 1
      show ?thesis by (rule exI [of _ "[]"], rule exI [of _ "c # s"]) (simp add: 1)
    next
      case 2
      then obtain pre post where pp: "s = pre @ post" "match_here r post" using Cons.IH by blast
      show ?thesis by (rule exI [of _ "c # pre"], rule exI [of _ post]) (simp add: pp)
    qed
  next
    assume "\<exists>pre post. c # s = pre @ post \<and> match_here r post"
    then obtain pre post where p: "c # s = pre @ post" "match_here r post" by blast
    show "Match r (c # s)"
    proof (cases pre)
      case Nil
      then have "match_here r (c # s)" using p by simp
      then show ?thesis by simp
    next
      case (Cons c' pre')
      then have "s = pre' @ post" using p by simp
      then show ?thesis using p Cons.IH by auto
    qed
  qed
qed

lemma match_here_Cons:
  "match_here (cls # r) s \<longleftrightarrow> (\<exists>c s'. s = c # s' \<and> c \<in> cls \<and> match_here r s')"
  by (cases s) auto

lemma match_here_4:
  "match_here [A, B, C, D] s \<longleftrightarrow>
     (\<exists>a b c d post. s = a # b # c # d # post \<and> a \<in> A \<and> b \<in> B \<and> c \<in> C \<and> d \<in> D)"
proof -
  have "match_here [A, B, C, D] s \<longleftrightarrow>
      (\<exists>a s1. s = a # s1 \<and> a \<in> A \<and> (\<exists>b s2. s1 = b # s2 \<and> b \<in> B \<and>
         (\<exists>c s3. s2 = c # s3 \<and> c \<in> C \<and> (\<exists>d s4. s3 = d # s4 \<and> d \<in> D))))"
    by (simp only: match_here_Cons match_here.simps(1) simp_thms)
  also have "\<dots> \<longleftrightarrow>
      (\<exists>a b c d post. s = a # b # c # d # post \<and> a \<in> A \<and> b \<in> B \<and> c \<in> C \<and> d \<in> D)"
    by blast
  finally show ?thesis .
qed

lemma permReg_classes:
  "permReg = [{CHR ''0''}, set ''01234567'', set ''01234567'', set ''01234567'']"
  by (simp only: permReg_def numeral_3_eq_3 replicate_Suc replicate_0)

lemma match_here_permReg:
  "match_here permReg s \<longleftrightarrow>
     (\<exists>a b c post. s = CHR ''0'' # a # b # c # post \<and>
        a \<in> set ''01234567'' \<and> b \<in> set ''01234567'' \<and> c \<in> set ''01234567'')"
  unfolding permReg_classes match_here_4 singleton_iff by (simp only: ex_simps simp_thms) blast

lemma Match_permReg:
  "Match permReg s \<longleftrightarrow>
     (\<exists>pre a b c post. s = pre @ CHR ''0'' # a # b # c # post \<and>
        a \<in> set ''01234567'' \<and> b \<in> set ''01234567'' \<and> c \<in> set ''01234567'')"
  unfolding Match_iff match_here_permReg by blast


text \<open>What the check accepts, for a permission that is set and is not \<open>"0"\<close>.\<close>

lemma perm_accepted_iff:
  assumes "perm \<noteq> []" and "perm \<noteq> ''0''"
  shows "perm_accepted perm \<longleftrightarrow>
     (\<exists>pre a b c post. perm = pre @ CHR ''0'' # a # b # c # post \<and>
        a \<in> set ''01234567'' \<and> b \<in> set ''01234567'' \<and> c \<in> set ''01234567'')"
  using assms by (simp add: perm_accepted_def Match_permReg del: set_simps)

lemma perm_accepted_examples:
  "perm_accepted []" "perm_accepted ''0755''" "\<not> perm_accepted ''755''" "perm_accepted ''0''"
  "\<not> perm_accepted ''0999''" "perm_accepted ''07555''" "perm_accepted ''x0755''"
  "perm_accepted ''0644''" "\<not> perm_accepted ''abc''"
  by (simp_all add: perm_accepted_def permReg_def numeral_3_eq_3)

lemma Validate_distinct:
  assumes "distinct (map v_Name (Volumes pod))" and "distinct (map f_Name (Files pod))"
    and "containers_loop (set (map v_Name (Volumes pod))) (set (map f_Name (Files pod))) 0
      (Containers pod) = Inr r"
  shows "Validate pod = Inr (pod, r)"
  using Validate_unfold [OF assms(3)] assms(1,2) by (simp only: simp_thms if_False)

lemma Validate_perm_pod:
  "Validate (perm_pod perm) =
     Inr (perm_pod perm, if perm_accepted perm then None else Some permErr)"
proof (rule Validate_distinct)
  show "distinct (map v_Name (Volumes (perm_pod perm)))"
    and "distinct (map f_Name (Files (perm_pod perm)))"
    by (simp_all add: perm_pod_def pod_of_def)
  show "containers_loop (set (map v_Name (Volumes (perm_pod perm))))
      (set (map f_Name (Files (perm_pod perm)))) 0 (Containers (perm_pod perm)) =
      Inr (if perm_accepted perm then None else Some permErr)"
    by (simp add: perm_pod_def pod_of_def file_of_def container_step_eq file_step_err
        container_of_def file_ref_def)
qed

lemma Validate_perm_pod_second:
  "Validate (perm_pod_second perm) =
     Inr (perm_pod_second perm, if perm_accepted perm then None else Some permErr)"
proof (rule Validate_distinct)
  show "distinct (map v_Name (Volumes (perm_pod_second perm)))"
    and "distinct (map f_Name (Files (perm_pod_second perm)))"
    by (simp_all add: perm_pod_second_def pod_of_def)
  show "containers_loop (set (map v_Name (Volumes (perm_pod_second perm))))
      (set (map f_Name (Files (perm_pod_second perm)))) 0 (Containers (perm_pod_second perm)) =
      Inr (if perm_accepted perm then None else Some permErr)"
    by (simp add: perm_pod_second_def pod_of_def file_of_def container_step_eq file_step_err
        container_of_def file_ref_def)
qed

text \<open>
  A nil pointer to a keyed record makes \<open>keySet\<close> panic when the loop reaches it:
  \<open>key()\<close> has a value receiver.
\<close>

lemma keySet_nil_pointer_panics:
  assumes "map key pre = map Inr ks" and "distinct ks"
    and "x \<in> {PVolume None, PVolumeReference None, PFile None, PEnv None}"
  shows "keySet (ISlice (pre @ x # post)) = Inl NilDereference"
  using keySet_loop_stop [OF assms(1,2), of "{}" x post] assms(3)
  by (auto simp: keySet_def InterfaceSlice_def)




text \<open>
  Claim C4. \<open>Validate\<close> returns and leaves the record as it was, whether it returns an
  error or \<open>nil\<close>. The default \<open>"0755"\<close> for an unset permission goes to the loop's
  copy of the file reference only, which the check then accepts.
\<close>

theorem Validate_frame:
  "(\<exists>err. Validate pod = Inr (pod, err)) \<and>
   (\<forall>idx fset f. Filename f \<in> fset \<and> Perm f = [] \<longrightarrow>
      file_step idx fset f = (f\<lparr>Perm := ''0755''\<rparr>, None))"
proof
  show "\<exists>err. Validate pod = Inr (pod, err)"
    by (rule Validate_returns)
next
  have "Match permReg ''0755''" by (simp add: permReg_def numeral_3_eq_3)
  then show "\<forall>idx fset f. Filename f \<in> fset \<and> Perm f = [] \<longrightarrow>
      file_step idx fset f = (f\<lparr>Perm := ''0755''\<rparr>, None)"
    by (simp add: file_step_def)
qed

theorem Validate_frame_witness:
  "(\<exists>err. Validate (perm_pod []) = Inr (perm_pod [], err)) \<and>
   Validate (perm_pod []) = Inr (perm_pod [], None) \<and>
   map Perm (c_Files (hd (Containers (perm_pod [])))) = [[]] \<and>
   Filename (file_ref ''f'' []) \<in> {''f''} \<and> Perm (file_ref ''f'' []) = [] \<and>
   file_step 0 {''f''} (file_ref ''f'' []) = ((file_ref ''f'' [])\<lparr>Perm := ''0755''\<rparr>, None)"
proof -
  have h1: "Filename (file_ref ''f'' []) \<in> {''f''}" and h2: "Perm (file_ref ''f'' []) = []"
    by (simp_all add: file_ref_def)
  have v: "Validate (perm_pod []) = Inr (perm_pod [], None)"
    by (simp add: Validate_perm_pod perm_accepted_examples)
  have a: "\<exists>err. Validate (perm_pod []) = Inr (perm_pod [], err)"
    using Validate_frame [of "perm_pod []"] by (rule conjunct1)
  have "Filename (file_ref ''f'' []) \<in> {''f''} \<and> Perm (file_ref ''f'' []) = [] \<longrightarrow>
      file_step 0 {''f''} (file_ref ''f'' []) = ((file_ref ''f'' [])\<lparr>Perm := ''0755''\<rparr>, None)"
    using Validate_frame [of "perm_pod []", THEN conjunct2] by (elim allE)
  then have b: "file_step 0 {''f''} (file_ref ''f'' []) = ((file_ref ''f'' [])\<lparr>Perm := ''0755''\<rparr>, None)"
    using h1 h2 by (simp only: simp_thms)
  have c: "map Perm (c_Files (hd (Containers (perm_pod [])))) = [[]]"
    by (simp add: example_defs)
  show ?thesis by (intro conjI) (fact a v c h1 h2 b)+
qed

text \<open>
  Claim C1: the code accepts more than the claim allows. The pattern of \<open>permReg\<close> has
  no anchors, so a permission string that contains a zero followed by three octal digits
  anywhere passes: \<open>Validate\<close> returns \<open>nil\<close> for the permissions \<open>07555\<close> and
  \<open>x0755\<close>, neither of which is a zero followed by exactly three octal digits.
\<close>

theorem Validate_accepts_unanchored_perm:
  "Validate (perm_pod ''07555'') = Inr (perm_pod ''07555'', None) \<and>
   Validate (perm_pod ''x0755'') = Inr (perm_pod ''x0755'', None)"
  by (simp add: Validate_perm_pod perm_accepted_examples)

text \<open>The four permission strings the specification names behave as it says.\<close>

lemma Validate_perm_examples:
  "Validate (perm_pod ''0755'') = Inr (perm_pod ''0755'', None)"
  "Validate (perm_pod ''755'') = Inr (perm_pod ''755'', Some permErr)"
  "Validate (perm_pod ''0'') = Inr (perm_pod ''0'', None)"
  "Validate (perm_pod ''0999'') = Inr (perm_pod ''0999'', Some permErr)"
  by (simp_all add: Validate_perm_pod perm_accepted_examples)

text \<open>
  Claim C5: the error for a malformed permission string carries neither the index of the
  container nor the string. The call of \<open>fmt.Errorf\<close> passes no operands for \<open>%d\<close> and
  \<open>%s\<close>, so the message is the same for the permission \<open>755\<close> in container 0 and for
  the permission \<open>0999\<close> in container 1.
\<close>

theorem Validate_perm_error_without_index:
  "Validate (perm_pod ''755'') =
     Inr (perm_pod ''755'',
       Some ''in container %!d(MISSING), the permission %!s(MISSING) only accept Octal digital in string'') \<and>
   Validate (perm_pod_second ''0999'') =
     Inr (perm_pod_second ''0999'',
       Some ''in container %!d(MISSING), the permission %!s(MISSING) only accept Octal digital in string'')"
  by (simp add: Validate_perm_pod Validate_perm_pod_second perm_accepted_examples permErr_message)

text \<open>
  Claim C3, as stated, fails: \<open>Validate\<close> returns the first failure it meets. In the
  pod below the catalogs and the containers pass the uniqueness checks and container 1
  refers to the file \<open>b\<close>, which the file list does not have; but container 0 has a
  malformed permission, and the error \<open>Validate\<close> returns is the permission error, not
  the error for the file \<open>b\<close> of container 1.
\<close>

theorem Validate_perm_error_before_dangling:
  "distinct (map v_Name (Volumes perm_before_dangling_pod)) \<and>
   distinct (map f_Name (Files perm_before_dangling_pod)) \<and>
   list_all (\<lambda>c. distinct (map Volume (c_Volumes c)) \<and> distinct (map Env (Envs c)))
     (Containers perm_before_dangling_pod) \<and>
   dangling_file perm_before_dangling_pod 1 ''b'' \<and>
   Validate perm_before_dangling_pod = Inr (perm_before_dangling_pod, Some permErr) \<and>
   permErr \<noteq> fileErr 1 ''b''"
proof -
  have u1: "distinct (map v_Name (Volumes perm_before_dangling_pod))"
    by (simp add: example_defs)
  have u2: "distinct (map f_Name (Files perm_before_dangling_pod))"
    by (simp add: example_defs)
  have u3: "list_all (\<lambda>c. distinct (map Volume (c_Volumes c)) \<and> distinct (map Env (Envs c)))
      (Containers perm_before_dangling_pod)"
    by (simp add: example_defs)
  have "containers_loop (set (map v_Name (Volumes perm_before_dangling_pod)))
      (set (map f_Name (Files perm_before_dangling_pod))) 0
      (Containers perm_before_dangling_pod) = Inr (Some permErr)"
    by (simp add: perm_before_dangling_pod_def pod_of_def file_of_def container_step_eq
        file_step_err container_of_def file_ref_def perm_accepted_examples)
  then have v: "Validate perm_before_dangling_pod = Inr (perm_before_dangling_pod, Some permErr)"
    by (rule Validate_distinct [OF u1 u2])
  have m: "fileErr 1 ''b'' = ''in container 1, file b does not exist in file list.''"
    by (simp add: fileErr_def Errorf.simps Itoa_def digits.simps)
  have n: "permErr \<noteq> fileErr 1 ''b''"
    unfolding permErr_message m by simp
  have d: "dangling_file perm_before_dangling_pod 1 ''b''"
    by (simp add: dangling_file_def example_defs)
  show ?thesis by (intro conjI) (fact u1 u2 u3 d v n)+
qed

lemma first_failure_iff:
  "first_failure pod i e \<longleftrightarrow>
     i < length (Containers pod) \<and>
     (\<forall>j<i. list_all (file_ok (set (map f_Name (Files pod)))) (c_Files (Containers pod ! j)) \<and>
            list_all (\<lambda>v. Volume v \<in> set (map v_Name (Volumes pod)))
              (c_Volumes (Containers pod ! j))) \<and>
     ((\<exists>k<length (c_Files (Containers pod ! i)).
          list_all (file_ok (set (map f_Name (Files pod)))) (take k (c_Files (Containers pod ! i))) \<and>
          \<not> file_ok (set (map f_Name (Files pod))) (c_Files (Containers pod ! i) ! k) \<and>
          e = (if Filename (c_Files (Containers pod ! i) ! k) \<in> set (map f_Name (Files pod))
               then permErr else fileErr i (Filename (c_Files (Containers pod ! i) ! k)))) \<or>
      (list_all (file_ok (set (map f_Name (Files pod)))) (c_Files (Containers pod ! i)) \<and>
       (\<exists>k<length (c_Volumes (Containers pod ! i)).
          list_all (\<lambda>v. Volume v \<in> set (map v_Name (Volumes pod)))
            (take k (c_Volumes (Containers pod ! i))) \<and>
          Volume (c_Volumes (Containers pod ! i) ! k) \<notin> set (map v_Name (Volumes pod)) \<and>
          e = volumeErr i (Volume (c_Volumes (Containers pod ! i) ! k)))))"
proof -
  have t: "list_all P (take i xs) \<longleftrightarrow> (\<forall>j<i. P (xs ! j))" if "i < length xs"
    for P :: "'a \<Rightarrow> bool" and xs
    using that by (simp add: list_all_length)
  have x: "list_ex Q [0..<n] \<longleftrightarrow> (\<exists>k<n. Q k)" for Q n
    by (auto simp: list_ex_iff)
  show ?thesis
    unfolding first_failure_def Let_def x
    by (cases "i < length (Containers pod)") (simp_all only: t simp_thms)
qed


text \<open>The first failure is unique: the notion fixes the container and the error.\<close>

lemma first_failure_unique:
  assumes "first_failure pod i e" and "first_failure pod i' e'"
  shows "i = i' \<and> e = e'"
proof -
  let ?fset = "set (map f_Name (Files pod))"
  let ?vset = "set (map v_Name (Volumes pod))"
  let ?cs = "Containers pod"
  let ?clean = "\<lambda>c. list_all (file_ok ?fset) (c_Files c) \<and> list_all (\<lambda>v. Volume v \<in> ?vset) (c_Volumes c)"
  have dirty: "\<not> ?clean (?cs ! a)" if "first_failure pod a b" for a b
    using that unfolding first_failure_iff list_all_length by auto
  have before: "?clean (?cs ! j)" if "first_failure pod a b" "j < a" for a b j
    using that unfolding first_failure_iff by blast
  have i: "i = i'"
  proof (rule ccontr)
    assume "i \<noteq> i'"
    then consider "i < i'" | "i' < i" by linarith
    then show False
    proof cases
      case 1
      then show ?thesis using before [OF assms(2) 1] dirty [OF assms(1)] by blast
    next
      case 2
      then show ?thesis using before [OF assms(1) 2] dirty [OF assms(2)] by blast
    qed
  qed
  let ?fs = "c_Files (?cs ! i)"
  let ?vs = "c_Volumes (?cs ! i)"
  have first: "k = k'"
    if "k < length xs" "list_all P (take k xs)" "\<not> P (xs ! k)"
      "k' < length xs" "list_all P (take k' xs)" "\<not> P (xs ! k')"
    for P :: "'a \<Rightarrow> bool" and xs k k'
  proof (rule ccontr)
    assume "k \<noteq> k'"
    then consider "k < k'" | "k' < k" by linarith
    then show False
    proof cases
      case 1
      then have "P (xs ! k)" using that(4,5) by (simp add: list_all_length)
      then show ?thesis using that(3) by contradiction
    next
      case 2
      then have "P (xs ! k')" using that(1,2) by (simp add: list_all_length)
      then show ?thesis using that(6) by contradiction
    qed
  qed
  from assms(1) consider
    (fref) k where "k < length ?fs" "list_all (file_ok ?fset) (take k ?fs)"
      "\<not> file_ok ?fset (?fs ! k)"
      "e = (if Filename (?fs ! k) \<in> ?fset then permErr else fileErr i (Filename (?fs ! k)))"
    | (vref) k where "list_all (file_ok ?fset) ?fs" "k < length ?vs"
      "list_all (\<lambda>v. Volume v \<in> ?vset) (take k ?vs)" "Volume (?vs ! k) \<notin> ?vset"
      "e = volumeErr i (Volume (?vs ! k))"
    unfolding first_failure_iff by blast
  then have "e = e'"
  proof cases
    case fref
    then have nf: "\<not> list_all (file_ok ?fset) ?fs"
      by (auto simp: list_all_length)
    with assms(2) i obtain k' where k': "k' < length ?fs"
      "list_all (file_ok ?fset) (take k' ?fs)" "\<not> file_ok ?fset (?fs ! k')"
      "e' = (if Filename (?fs ! k') \<in> ?fset then permErr else fileErr i (Filename (?fs ! k')))"
      unfolding first_failure_iff by blast
    have "k = k'" using first [OF fref(1-3) k'(1-3)] .
    then show ?thesis using fref(4) k'(4) by simp
  next
    case vref
    then have "\<not> (\<exists>k<length ?fs. \<not> file_ok ?fset (?fs ! k))"
      by (simp add: list_all_length)
    with assms(2) i obtain k' where k': "k' < length ?vs"
      "list_all (\<lambda>v. Volume v \<in> ?vset) (take k' ?vs)" "Volume (?vs ! k') \<notin> ?vset"
      "e' = volumeErr i (Volume (?vs ! k'))"
      unfolding first_failure_iff by blast
    have "k = k'"
      using first [of k ?vs "\<lambda>v. Volume v \<in> ?vset" k'] vref(2-4) k'(1-3) by blast
    then show ?thesis using vref(5) k'(4) by simp
  qed
  with i show ?thesis by simp
qed

text \<open>
  The first failure is the permission error of a file reference that resolves, or it
  names the container and a name that this container refers to and the catalog lacks.
\<close>

lemma first_failure_identifies:
  assumes "first_failure pod i e"
  shows "(e = permErr \<and> (\<exists>f\<in>set (c_Files (Containers pod ! i)).
             Filename f \<in> set (map f_Name (Files pod)) \<and> \<not> perm_accepted (Perm f))) \<or>
         (\<exists>n. dangling_file pod i n \<and> e = fileErr i n) \<or>
         (\<exists>n. dangling_volume pod i n \<and> e = volumeErr i n)"
proof -
  let ?fset = "set (map f_Name (Files pod))"
  let ?vset = "set (map v_Name (Volumes pod))"
  let ?fs = "c_Files (Containers pod ! i)"
  let ?vs = "c_Volumes (Containers pod ! i)"
  have i: "i < length (Containers pod)"
    using assms unfolding first_failure_iff by blast
  from assms consider
    (fref) k where "k < length ?fs" "\<not> file_ok ?fset (?fs ! k)"
      "e = (if Filename (?fs ! k) \<in> ?fset then permErr else fileErr i (Filename (?fs ! k)))"
    | (vref) k where "k < length ?vs" "Volume (?vs ! k) \<notin> ?vset"
      "e = volumeErr i (Volume (?vs ! k))"
    unfolding first_failure_iff by blast
  then show ?thesis
  proof cases
    case fref
    have m: "?fs ! k \<in> set ?fs" using fref(1) by simp
    show ?thesis
    proof (cases "Filename (?fs ! k) \<in> ?fset")
      case True
      then have "e = permErr" "\<not> perm_accepted (Perm (?fs ! k))"
        using fref(2,3) by (simp_all add: file_ok_def)
      then show ?thesis using m True by blast
    next
      case False
      then have "dangling_file pod i (Filename (?fs ! k))" "e = fileErr i (Filename (?fs ! k))"
        using fref(3) m i by (simp_all add: dangling_file_def)
      then show ?thesis by blast
    qed
  next
    case vref
    have "?vs ! k \<in> set ?vs" using vref(1) by simp
    then have "dangling_volume pod i (Volume (?vs ! k))"
      using vref(2) i by (simp add: dangling_volume_def)
    then show ?thesis using vref(3) by blast
  qed
qed

text \<open>
  Claim C3, amended. For a pod whose catalogs and containers pass the uniqueness checks:
  if some container has a file reference or a volume reference whose name the catalog
  does not have, \<open>Validate\<close> fails, and its error is that of the first check that
  fails, the containers taken in positional order and, within a container, the file
  references in order (each for its name, then for its permission) before the volume
  references in order. That error is the permission error, for a file reference that
  resolves and has a permission the check rejects, or else it identifies the positional
  index of that container and the missing name. If every reference resolves and every
  permission is accepted, \<open>Validate\<close> returns \<open>nil\<close>.
\<close>

theorem Validate_dangling_reference:
  assumes "distinct (map v_Name (Volumes pod))" and "distinct (map f_Name (Files pod))"
    and "\<forall>c\<in>set (Containers pod). distinct (map Volume (c_Volumes c)) \<and> distinct (map Env (Envs c))"
  shows "((\<exists>i n. dangling_file pod i n \<or> dangling_volume pod i n) \<longrightarrow>
            (\<exists>i e. Validate pod = Inr (pod, Some e) \<and> first_failure pod i e)) \<and>
         (\<not> (\<exists>i n. dangling_file pod i n \<or> dangling_volume pod i n) \<and>
          (\<forall>c\<in>set (Containers pod). \<forall>f\<in>set (c_Files c). perm_accepted (Perm f)) \<longrightarrow>
            Validate pod = Inr (pod, None))"
proof -
  let ?vset = "set (map v_Name (Volumes pod))"
  let ?fset = "set (map f_Name (Files pod))"
  let ?cs = "Containers pod"
  obtain r where r: "containers_loop ?vset ?fset 0 ?cs = Inr r"
    using containers_loop_Inr by blast
  have v: "Validate pod = Inr (pod, r)"
    using assms(1,2) r by (rule Validate_distinct)
  have u: "distinct (map Volume (c_Volumes (?cs ! j)))" "distinct (map Env (Envs (?cs ! j)))"
    if "j < length ?cs" for j
    using assms(3) that by (simp_all add: nth_mem)
  have A: "\<exists>i e. Validate pod = Inr (pod, Some e) \<and> first_failure pod i e"
    if "\<exists>i n. dangling_file pod i n \<or> dangling_volume pod i n"
  proof -
    from that obtain i n where d: "dangling_file pod i n \<or> dangling_volume pod i n" by blast
    then have i: "i < length ?cs" by (auto simp: dangling_file_def dangling_volume_def)
    have ne: "container_step ?vset ?fset (0 + i) (?cs ! i) \<noteq> Inr None"
      using d
      by (auto simp: container_step_None dangling_file_def dangling_volume_def file_ok_def
          list_all_iff)
    have "r \<noteq> None"
    proof
      assume "r = None"
      then have "\<forall>i<length ?cs. container_step ?vset ?fset (0 + i) (?cs ! i) = Inr None"
        using r by (simp only: containers_loop_None)
      then have "container_step ?vset ?fset (0 + i) (?cs ! i) = Inr None"
        using i by (elim allE [of _ i]) (rule mp)
      then show False using ne by contradiction
    qed
    then obtain e where e: "r = Some e" by blast
    from containers_loop_Some [OF r [unfolded e]] obtain j where j: "j < length ?cs"
      "container_step ?vset ?fset (0 + j) (?cs ! j) = Inr (Some e)"
      "\<forall>m<j. container_step ?vset ?fset (0 + m) (?cs ! m) = Inr None" by blast
    have clean: "list_all (file_ok ?fset) (c_Files (?cs ! m)) \<and>
        list_all (\<lambda>v. Volume v \<in> ?vset) (c_Volumes (?cs ! m))" if "m < j" for m
    proof -
      have "container_step ?vset ?fset (0 + m) (?cs ! m) = Inr None"
        using j(3) that by (elim allE [of _ m]) (rule mp)
      then show ?thesis by (simp only: container_step_None)
    qed
    have c: "\<forall>m<j. list_all (file_ok ?fset) (c_Files (?cs ! m)) \<and>
        list_all (\<lambda>v. Volume v \<in> ?vset) (c_Volumes (?cs ! m))"
      using clean by blast
    have "first_failure pod j e"
      unfolding first_failure_iff
      using container_step_first [OF j(2) u [OF j(1)]]
      by (intro conjI j(1) c) (simp only: add_0)
    then show ?thesis using v e by blast
  qed
  have B: "Validate pod = Inr (pod, None)"
    if a: "\<not> (\<exists>i n. dangling_file pod i n \<or> dangling_volume pod i n) \<and>
          (\<forall>c\<in>set ?cs. \<forall>f\<in>set (c_Files c). perm_accepted (Perm f))"
  proof -
    have "container_step ?vset ?fset (0 + i) (?cs ! i) = Inr None" if i: "i < length ?cs" for i
    proof -
      have ci: "?cs ! i \<in> set ?cs" using i by simp
      have f: "file_ok ?fset f" if "f \<in> set (c_Files (?cs ! i))" for f
      proof -
        have "Filename f \<in> ?fset"
        proof (rule ccontr)
          assume "Filename f \<notin> ?fset"
          then have "dangling_file pod i (Filename f)"
            using that i by (simp add: dangling_file_def)
          then show False using a by blast
        qed
        moreover have "perm_accepted (Perm f)" using a ci that by blast
        ultimately show ?thesis by (simp add: file_ok_def)
      qed
      have w: "Volume w \<in> ?vset" if "w \<in> set (c_Volumes (?cs ! i))" for w
      proof (rule ccontr)
        assume "Volume w \<notin> ?vset"
        then have "dangling_volume pod i (Volume w)"
          using that i by (simp add: dangling_volume_def)
        then show False using a by blast
      qed
      show ?thesis
        unfolding container_step_None list_all_iff using u [OF i] f w by blast
    qed
    then have "\<forall>i<length ?cs. container_step ?vset ?fset (0 + i) (?cs ! i) = Inr None"
      by blast
    then have "containers_loop ?vset ?fset 0 ?cs = Inr None"
      by (simp only: containers_loop_None)
    then have "r = None" using r by simp
    then show ?thesis using v by simp
  qed
  show ?thesis using A B by blast
qed


theorem Validate_dangling_reference_witness:
  "distinct (map v_Name (Volumes dangling_pod)) \<and> distinct (map f_Name (Files dangling_pod)) \<and>
   list_all (\<lambda>c. distinct (map Volume (c_Volumes c)) \<and> distinct (map Env (Envs c)))
     (Containers dangling_pod) \<and>
   dangling_file dangling_pod 1 ''b'' \<and> dangling_volume dangling_pod 1 ''v'' \<and>
   first_failure dangling_pod 1 (fileErr 1 ''b'') \<and>
   Validate dangling_pod = Inr (dangling_pod, Some (fileErr 1 ''b'')) \<and>
   distinct (map v_Name (Volumes resolved_pod)) \<and> distinct (map f_Name (Files resolved_pod)) \<and>
   list_all (\<lambda>c. distinct (map Volume (c_Volumes c)) \<and> distinct (map Env (Envs c)))
     (Containers resolved_pod) \<and>
   \<not> (\<exists>i n. dangling_file resolved_pod i n \<or> dangling_volume resolved_pod i n) \<and>
   list_all (\<lambda>c. list_all (\<lambda>f. perm_accepted (Perm f)) (c_Files c)) (Containers resolved_pod) \<and>
   Validate resolved_pod = Inr (resolved_pod, None)"
proof -
  have d1: "distinct (map v_Name (Volumes dangling_pod))"
    and d2: "distinct (map f_Name (Files dangling_pod))"
    and d3: "list_all (\<lambda>c. distinct (map Volume (c_Volumes c)) \<and> distinct (map Env (Envs c)))
      (Containers dangling_pod)"
    by (simp_all add: example_defs)
  have d: "dangling_file dangling_pod 1 ''b''"
    by (simp add: dangling_file_def example_defs)
  have dv: "dangling_volume dangling_pod 1 ''v''"
    by (simp add: dangling_volume_def example_defs)
  have ex: "\<exists>i n. dangling_file dangling_pod i n \<or> dangling_volume dangling_pod i n"
    using d by (intro exI [of _ 1] exI [of _ "''b''"] disjI1)
  have ff: "first_failure dangling_pod 1 (fileErr 1 ''b'')"
    by (simp add: first_failure_def example_defs file_ok_def perm_accepted_examples)
  have r1: "distinct (map v_Name (Volumes resolved_pod))"
    and r2: "distinct (map f_Name (Files resolved_pod))"
    and r3: "list_all (\<lambda>c. distinct (map Volume (c_Volumes c)) \<and> distinct (map Env (Envs c)))
      (Containers resolved_pod)"
    by (simp_all add: example_defs)
  have r4: "\<not> (\<exists>i n. dangling_file resolved_pod i n \<or> dangling_volume resolved_pod i n)"
  proof -
    have "\<not> dangling_file resolved_pod i n" "\<not> dangling_volume resolved_pod i n" for i n
      by (cases i; simp add: dangling_file_def dangling_volume_def example_defs)+
    then show ?thesis by simp
  qed
  have r5: "list_all (\<lambda>c. list_all (\<lambda>f. perm_accepted (Perm f)) (c_Files c))
      (Containers resolved_pod)"
    by (simp add: example_defs perm_accepted_examples)
  have r: "\<not> (\<exists>i n. dangling_file resolved_pod i n \<or> dangling_volume resolved_pod i n) \<and>
    (\<forall>c\<in>set (Containers resolved_pod). \<forall>f\<in>set (c_Files c). perm_accepted (Perm f))"
    using r4 r5 by (simp only: list_all_iff simp_thms)
  from Validate_dangling_reference [OF d1 d2 d3 [unfolded list_all_iff],
      THEN conjunct1, THEN mp, OF ex]
  obtain i e where ie: "Validate dangling_pod = Inr (dangling_pod, Some e)"
    "first_failure dangling_pod i e" by blast
  have "e = fileErr 1 ''b''"
    using first_failure_unique [OF ie(2) ff] by (rule conjunct2)
  then have a: "Validate dangling_pod = Inr (dangling_pod, Some (fileErr 1 ''b''))"
    using ie(1) by simp
  note b = Validate_dangling_reference [OF r1 r2 r3 [unfolded list_all_iff],
      THEN conjunct2, THEN mp, OF r]
  show ?thesis
    by (intro conjI) (fact d1 d2 d3 d dv ff a r1 r2 r3 r4 r5 b)+
qed

end
